theory Spec2Isabelle
  imports Complex_Main "HOL-Library.Word"
begin

section \<open>Text values\<close>

text \<open>
  A Python \<open>str\<close> is a sequence of Unicode code points, and \<open>len\<close> counts code points.
  The bullet glyphs of \<open>format_answer\<close> lie outside ASCII, so a text is modelled as the
  list of its code points.
\<close>

type_synonym unicode = "nat list"

definition str :: "string \<Rightarrow> unicode" where
  "str s = map of_char s"

text \<open>
  \<open>str.isspace\<close> on one code point: the characters that \<open>str.strip()\<close> without an
  argument removes (tab to carriage return, the four separators 28 to 31, space, NEL,
  no-break space and the Unicode space separators).
\<close>

definition isspace :: "nat \<Rightarrow> bool" where
  "isspace c \<longleftrightarrow>
     (9 \<le> c \<and> c \<le> 13) \<or> (28 \<le> c \<and> c \<le> 32) \<or> c = 133 \<or> c = 160 \<or> c = 5760 \<or>
     (8192 \<le> c \<and> c \<le> 8202) \<or> c = 8232 \<or> c = 8233 \<or> c = 8239 \<or> c = 8287 \<or> c = 12288"

definition lstrip :: "unicode \<Rightarrow> unicode" where
  "lstrip s = dropWhile isspace s"

definition rstrip :: "unicode \<Rightarrow> unicode" where
  "rstrip s = rev (dropWhile isspace (rev s))"

definition strip :: "unicode \<Rightarrow> unicode" where
  "strip s = rstrip (lstrip s)"

text \<open>\<open>s.startswith(sub)\<close> and the substring test \<open>sub in s\<close>.\<close>

definition startswith :: "'a list \<Rightarrow> 'a list \<Rightarrow> bool" where
  "startswith sub s \<longleftrightarrow> take (length sub) s = sub"

fun contains :: "'a list \<Rightarrow> 'a list \<Rightarrow> bool" where
  "contains sub [] = (sub = [])"
| "contains sub (x # xs) = (startswith sub (x # xs) \<or> contains sub xs)"

text \<open>
  \<open>s.replace(old, new)\<close>: the occurrences of \<open>old\<close> are found from left to right
  without overlap, and each is replaced by \<open>new\<close>. For an empty \<open>old\<close> Python puts
  \<open>new\<close> before every character and at the end.
\<close>

function replace :: "'a list \<Rightarrow> 'a list \<Rightarrow> 'a list \<Rightarrow> 'a list" where
  "replace old new [] = (if old = [] then new else [])"
| "replace old new (x # xs) =
     (if old = [] then new @ x # replace old new xs
      else if startswith old (x # xs) then new @ replace old new (drop (length old) (x # xs))
      else x # replace old new xs)"
  by pat_completeness auto
termination
  by (relation "measure (\<lambda>(old, new, s). length s)") auto

section \<open>The answer formatter\<close>

definition BULLET :: nat where "BULLET = 8226"
definition BLACK_CIRCLE :: nat where "BLACK_CIRCLE = 9679"
definition SMALL_SQUARE :: nat where "SMALL_SQUARE = 9642"
definition HYPHEN :: nat where "HYPHEN = 45"
definition NL :: nat where "NL = 10"

lemma startswith_length:
  assumes "startswith old s"
  shows "length old \<le> length s"
proof -
  from assms have "length (take (length old) s) = length old"
    unfolding startswith_def by simp
  then show ?thesis by simp
qed

lemma replace_Cons_match:
  "old \<noteq> [] \<Longrightarrow> startswith old (x # xs) \<Longrightarrow>
   replace old new (x # xs) = new @ replace old new (drop (length old) (x # xs))"
  by simp

lemma replace_Cons_skip:
  "old \<noteq> [] \<Longrightarrow> \<not> startswith old (x # xs) \<Longrightarrow>
   replace old new (x # xs) = x # replace old new xs"
  by simp

lemma length_replace_le:
  "old \<noteq> [] \<Longrightarrow> length new \<le> length old \<Longrightarrow> length (replace old new s) \<le> length s"
proof (induction old new s rule: replace.induct)
  case (1 old new)
  then show ?case by simp
next
  case (2 old new x xs)
  show ?case
  proof (cases "startswith old (x # xs)")
    case True
    have a: "length old \<le> length (x # xs)"
      using True by (rule startswith_length)
    have b: "length (replace old new (drop (length old) (x # xs)))
        \<le> length (drop (length old) (x # xs))"
      using 2(2) [OF 2(4) True 2(4) 2(5)] .
    show ?thesis
      unfolding replace_Cons_match [OF 2(4) True] using a b 2(5) by simp
  next
    case False
    show ?thesis
      unfolding replace_Cons_skip [OF 2(4) False]
      using 2(3) [OF 2(4) False 2(4) 2(5)] by simp
  qed
qed

lemma length_replace_less:
  "length new < length old \<Longrightarrow> contains old s \<Longrightarrow> length (replace old new s) < length s"
proof (induction old new s rule: replace.induct)
  case (1 old new)
  then show ?case by simp
next
  case (2 old new x xs)
  from 2(4) have ne: "old \<noteq> []" by auto
  show ?case
  proof (cases "startswith old (x # xs)")
    case True
    have a: "length old \<le> length (x # xs)"
      using True by (rule startswith_length)
    have b: "length (replace old new (drop (length old) (x # xs)))
        \<le> length (drop (length old) (x # xs))"
      using ne 2(4) by (intro length_replace_le) simp_all
    show ?thesis
      unfolding replace_Cons_match [OF ne True] using a b 2(4) by simp
  next
    case False
    with 2(5) have "contains old xs" by simp
    from 2(3) [OF ne False 2(4) this] show ?thesis
      unfolding replace_Cons_skip [OF ne False] by simp
  qed
qed

text \<open>
  The loop \<open>while "\n\n\n" in ans: ans = ans.replace("\n\n\n", "\n\n")\<close>. Every round
  shortens the text, so the loop ends.
\<close>

function collapse_blank_lines :: "unicode \<Rightarrow> unicode" where
  "collapse_blank_lines ans =
     (if contains [NL, NL, NL] ans
      then collapse_blank_lines (replace [NL, NL, NL] [NL, NL] ans)
      else ans)"
  by pat_completeness auto
termination
proof (relation "measure length")
  show "wf (measure length)" by simp
next
  fix ans :: unicode
  assume "contains [NL, NL, NL] ans"
  then have "length (replace [NL, NL, NL] [NL, NL] ans) < length ans"
    by (rule length_replace_less [rotated]) simp
  then show "(replace [NL, NL, NL] [NL, NL] ans, ans) \<in> measure length" by simp
qed

declare collapse_blank_lines.simps [simp del]

definition format_answer :: "unicode \<Rightarrow> unicode" where
  "format_answer ans =
     collapse_blank_lines
       (replace [SMALL_SQUARE] [HYPHEN]
         (replace [BLACK_CIRCLE] [HYPHEN]
           (replace [BULLET] [HYPHEN] (strip ans))))"

section \<open>Exceptions\<close>

text \<open>
  The exception classes that the calls of the program raise. \<open>CancelledError\<close> (raised
  in an awaiting task that is cancelled) derives from \<open>BaseException\<close> only, so that
  \<open>except Exception\<close> does not catch it; every other class derives from \<open>Exception\<close>.
\<close>

datatype exn =
    IndexError
  | AttributeError
  | UnidentifiedImageError
  | OSError
  | TelegramError
  | APIError
  | CancelledError

fun is_Exception :: "exn \<Rightarrow> bool" where
  "is_Exception CancelledError = False"
| "is_Exception _ = True"

section \<open>The chat transport, the generative backend and the image library\<close>

type_synonym bytes = "8 word list"
type_synonym photo_size = unicode
type_synonym file_ref = unicode

text \<open>
  The kinds of chat of the transport; the program compares \<open>chat.type\<close> with the
  names \<open>"group"\<close> and \<open>"supergroup"\<close>.
\<close>

datatype chat_type = PRIVATE | GROUP | SUPERGROUP | CHANNEL

text \<open>
  Of a message the handlers read the text (\<open>None\<close> for a message without text), the
  kind of chat and the attached photo sizes in ascending resolution. Of an update they
  read \<open>update.message\<close> and the identifier of the chat. \<open>update.message\<close> is \<open>None\<close>
  for an update that is not a new message: an edited message or caption, a channel post.
  The handlers are registered without a restriction to new messages, so they receive
  such updates too. The arguments of a command come with the context.
\<close>

record Message =
  msg_text :: "unicode option"
  msg_chat_type :: chat_type
  msg_photo :: "photo_size list"

record Update =
  message :: "Message option"
  effective_chat_id :: int

record Context =
  args :: "unicode list"

datatype part = Text unicode | Bytes bytes unicode

record GenerateContentConfig =
  max_output_tokens :: nat
  temperature :: rat

text \<open>
  Every call that leaves the process is recorded, with the flag telling whether it
  returned normally. \<open>Print\<close> is the line written to the operator console.
\<close>

datatype call =
    ReplyText unicode
  | SendChatAction int unicode
  | GetFile photo_size
  | DownloadAsBytearray file_ref
  | GenerateContent unicode "part list" GenerateContentConfig
  | Print unicode exn

type_synonym log = "(call \<times> bool) list"

text \<open>
  The environment of a handler: the configured handle (\<open>os.getenv\<close> gives \<open>None\<close>
  when the variable is not set) and the answers of the collaborators. An answer may
  depend on everything that happened before, so each collaborator reads the log.
  The image library works in memory and reads no log.
\<close>

record 'img env =
  BOT_USERNAME :: "unicode option"
  reply_text_result :: "log \<Rightarrow> unicode \<Rightarrow> exn option"
  send_chat_action_result :: "log \<Rightarrow> int \<Rightarrow> unicode \<Rightarrow> exn option"
  get_file_result :: "log \<Rightarrow> photo_size \<Rightarrow> exn + file_ref"
  download_result :: "log \<Rightarrow> file_ref \<Rightarrow> exn + bytes"
  generate_content_result ::
    "log \<Rightarrow> unicode \<Rightarrow> part list \<Rightarrow> GenerateContentConfig \<Rightarrow> exn + unicode option"
  image_open :: "bytes \<Rightarrow> exn + 'img"
  image_convert :: "'img \<Rightarrow> unicode \<Rightarrow> exn + 'img"
  image_save :: "'img \<Rightarrow> unicode \<Rightarrow> exn + bytes"

subsection \<open>Computations that call out and may raise\<close>

type_synonym 'a io = "log \<Rightarrow> (exn + 'a) \<times> log"

definition io_return :: "'a \<Rightarrow> 'a io" where
  "io_return x lg = (Inr x, lg)"

definition io_lift :: "exn + 'a \<Rightarrow> 'a io" where
  "io_lift r lg = (r, lg)"

definition io_bind :: "'a io \<Rightarrow> ('a \<Rightarrow> 'b io) \<Rightarrow> 'b io" where
  "io_bind m f lg = (case m lg of (Inl e, lg') \<Rightarrow> (Inl e, lg') | (Inr x, lg') \<Rightarrow> f x lg')"

text \<open>\<open>try: m except Exception as e: h e\<close>\<close>

definition io_try :: "'a io \<Rightarrow> (exn \<Rightarrow> 'a io) \<Rightarrow> 'a io" where
  "io_try m h lg =
     (case m lg of
        (Inl e, lg') \<Rightarrow> if is_Exception e then h e lg' else (Inl e, lg')
      | (Inr x, lg') \<Rightarrow> (Inr x, lg'))"

definition io_call :: "call \<Rightarrow> (log \<Rightarrow> exn + 'a) \<Rightarrow> 'a io" where
  "io_call c answer lg =
     (case answer lg of
        Inl e \<Rightarrow> (Inl e, lg @ [(c, False)])
      | Inr x \<Rightarrow> (Inr x, lg @ [(c, True)]))"

definition raised :: "exn option \<Rightarrow> exn + unit" where
  "raised r = (case r of None \<Rightarrow> Inr () | Some e \<Rightarrow> Inl e)"

definition reply_text :: "'img env \<Rightarrow> unicode \<Rightarrow> unit io" where
  "reply_text env t = io_call (ReplyText t) (\<lambda>lg. raised (reply_text_result env lg t))"

definition send_chat_action :: "'img env \<Rightarrow> int \<Rightarrow> unicode \<Rightarrow> unit io" where
  "send_chat_action env chat_id action =
     io_call (SendChatAction chat_id action)
       (\<lambda>lg. raised (send_chat_action_result env lg chat_id action))"

definition get_file :: "'img env \<Rightarrow> photo_size \<Rightarrow> file_ref io" where
  "get_file env photo = io_call (GetFile photo) (\<lambda>lg. get_file_result env lg photo)"

definition download_as_bytearray :: "'img env \<Rightarrow> file_ref \<Rightarrow> bytes io" where
  "download_as_bytearray env f =
     io_call (DownloadAsBytearray f) (\<lambda>lg. download_result env lg f)"

definition generate_content ::
  "'img env \<Rightarrow> unicode \<Rightarrow> part list \<Rightarrow> GenerateContentConfig \<Rightarrow> unicode option io" where
  "generate_content env model contents config =
     io_call (GenerateContent model contents config)
       (\<lambda>lg. generate_content_result env lg model contents config)"

definition print :: "unicode \<Rightarrow> exn \<Rightarrow> unit io" where
  "print label e = io_call (Print label e) (\<lambda>lg. Inr ())"

text \<open>
  Reading an attribute of \<open>update.message\<close>: on \<open>None\<close> the access raises, before the
  method behind it is called.
\<close>

definition message_of :: "Update \<Rightarrow> Message io" where
  "message_of update =
     io_lift (case message update of None \<Rightarrow> Inl AttributeError | Some m \<Rightarrow> Inr m)"

section \<open>Constants of the program\<close>

definition MODEL :: unicode where
  "MODEL = str ''gemini-2.0-flash''"

definition ARROW :: nat where "ARROW = 8594"
definition EN_DASH :: nat where "EN_DASH = 8211"

definition PROMPT :: unicode where
  "PROMPT = strip (concat (map (\<lambda>l. NL # l)
      [str ''You are an exam-solving AI.'',
       [],
       str ''Your task:'',
       str ''- Extract the questions.'',
       str ''- Detect the marks (1m, 2m, 5m, 10m, 15m).'',
       str ''- Answer strictly according to marks.'',
       [],
       str ''Formatting Rules:'',
       str ''- 1 mark '' @ [ARROW] @ str '' One-line answer.'',
       str ''- 2 marks '' @ [ARROW] @ str '' 2'' @ [EN_DASH] @ str ''3 lines.'',
       str ''- 5 marks '' @ [ARROW] @ str '' Medium answer (8'' @ [EN_DASH] @ str ''12 lines).'',
       str ''- 10'' @ [EN_DASH] @ str ''15 marks '' @ [ARROW]
         @ str '' Detailed long answer with points.'',
       str ''- Maintain numbering.'',
       str ''- No greetings.'',
       str ''- No extra sentences.'',
       str ''- Only answers.'']) @ [NL])"

definition CONFIG :: GenerateContentConfig where
  "CONFIG = \<lparr>max_output_tokens = 4000, temperature = 0.2\<rparr>"

definition EXTRACT :: unicode where
  "EXTRACT =
     str ''Extract the text from this question paper image and answer according to marks.''"

definition USAGE :: unicode where
  "USAGE = str ''Usage: /solve <questions>''"

definition IMAGE_FAILED :: unicode where
  "IMAGE_FAILED = str ''Image processing failed.''"

text \<open>
  The f-string that puts the at sign before \<open>BOT_USERNAME\<close>; formatting \<open>None\<close>
  gives the word None.
\<close>

definition mention :: "unicode option \<Rightarrow> unicode" where
  "mention u = str ''@'' @ (case u of None \<Rightarrow> str ''None'' | Some h \<Rightarrow> h)"

text \<open>\<open>x or ""\<close> on an optional text: \<open>None\<close> and the empty text both give the empty text.\<close>

definition or_empty :: "unicode option \<Rightarrow> unicode" where
  "or_empty x = (case x of None \<Rightarrow> [] | Some s \<Rightarrow> s)"

text \<open>\<open>sep.join(xs)\<close>\<close>

fun join :: "'a list \<Rightarrow> 'a list list \<Rightarrow> 'a list" where
  "join sep [] = []"
| "join sep [x] = x"
| "join sep (x # y # ys) = x @ sep @ join sep (y # ys)"

section \<open>Image conversion and the generation client\<close>

definition to_jpeg :: "'img env \<Rightarrow> bytes \<Rightarrow> exn + bytes" where
  "to_jpeg env img_bytes =
     (case (case image_open env img_bytes of
              Inl e \<Rightarrow> Inl e
            | Inr img \<Rightarrow>
                (case image_convert env img (str ''RGB'') of
                   Inl e \<Rightarrow> Inl e
                 | Inr rgb \<Rightarrow> image_save env rgb (str ''JPEG''))) of
        Inl e \<Rightarrow> if is_Exception e then Inr img_bytes else Inl e
      | Inr jpeg \<Rightarrow> Inr jpeg)"

definition solve_text :: "'img env \<Rightarrow> unicode \<Rightarrow> unicode option io" where
  "solve_text env t = generate_content env MODEL [Text PROMPT, Text t] CONFIG"

definition solve_image :: "'img env \<Rightarrow> bytes \<Rightarrow> unicode option io" where
  "solve_image env img_bytes =
     io_bind (io_lift (to_jpeg env img_bytes)) (\<lambda>jpeg.
       generate_content env MODEL
         [Bytes jpeg (str ''image/jpeg''), Text PROMPT, Text EXTRACT] CONFIG)"

text \<open>
  \<open>format_answer(ans)\<close> on what \<open>response.text\<close> holds: the attribute is \<open>None\<close> when
  the response carries no text, and \<open>None.strip()\<close> raises.
\<close>

definition format_response :: "unicode option \<Rightarrow> exn + unicode" where
  "format_response ans =
     (case ans of None \<Rightarrow> Inl AttributeError | Some a \<Rightarrow> Inr (format_answer a))"

section \<open>Handlers\<close>

text \<open>
  Each handler is the sequence of calls of its source function. \<open>solve_cmd\<close> returns
  after the usage reply when \<open>" ".join(context.args)\<close> is empty. \<open>handle_text\<close>
  returns at once in a group or supergroup chat when the mention is not in the text, and
  otherwise continues with the text \<open>text.replace(mention, "").strip()\<close>; in every other
  chat it continues with the text as it came. Every \<open>update.message.reply_text(...)\<close>
  and every other read of \<open>update.message\<close> goes through \<open>message_of\<close>.
\<close>

definition start :: "'img env \<Rightarrow> Update \<Rightarrow> Context \<Rightarrow> unit io" where
  "start env update context =
     io_bind (message_of update) (\<lambda>m.
     reply_text env
       (str ''Send text or image of your question paper.'' @ [NL]
        @ str ''In groups: mention me @''
        @ (case BOT_USERNAME env of None \<Rightarrow> str ''None'' | Some h \<Rightarrow> h)
        @ str '' or use /solve.''))"

definition solve_cmd :: "'img env \<Rightarrow> Update \<Rightarrow> Context \<Rightarrow> unit io" where
  "solve_cmd env update context =
     (let t = join (str '' '') (args context) in
      if t = [] then io_bind (message_of update) (\<lambda>m. reply_text env USAGE)
      else
        io_bind (send_chat_action env (effective_chat_id update) (str ''typing'')) (\<lambda>_.
        io_bind (solve_text env t) (\<lambda>ans.
        io_bind (io_lift (format_response ans)) (\<lambda>formatted.
        io_bind (message_of update) (\<lambda>m.
        reply_text env formatted)))))"

definition handle_text :: "'img env \<Rightarrow> Update \<Rightarrow> Context \<Rightarrow> unit io" where
  "handle_text env update context =
     io_bind (message_of update) (\<lambda>m.
     (let t = or_empty (msg_text m);
          answer = (\<lambda>t.
            io_bind (send_chat_action env (effective_chat_id update) (str ''typing'')) (\<lambda>_.
            io_bind (solve_text env t) (\<lambda>ans.
            io_bind (io_lift (format_response ans)) (\<lambda>formatted.
            io_bind (message_of update) (\<lambda>m.
            reply_text env formatted)))))
      in
        if msg_chat_type m \<in> set [GROUP, SUPERGROUP] then
          (if \<not> contains (mention (BOT_USERNAME env)) t then io_return ()
           else answer (strip (replace (mention (BOT_USERNAME env)) [] t)))
        else answer t))"

text \<open>The body of the \<open>try\<close> block of \<open>handle_image\<close>, and the handler around it.\<close>

definition handle_image_try :: "'img env \<Rightarrow> Update \<Rightarrow> Context \<Rightarrow> unit io" where
  "handle_image_try env update context =
     io_bind (message_of update) (\<lambda>m.
     io_bind (io_lift (case msg_photo m of
                         [] \<Rightarrow> Inl IndexError
                       | p # ps \<Rightarrow> Inr (last (p # ps)))) (\<lambda>photo.
     io_bind (get_file env photo) (\<lambda>f.
     io_bind (download_as_bytearray env f) (\<lambda>img_bytes.
     io_bind (send_chat_action env (effective_chat_id update) (str ''typing'')) (\<lambda>_.
     io_bind (solve_image env img_bytes) (\<lambda>ans.
     io_bind (io_lift (format_response ans)) (\<lambda>formatted.
     io_bind (message_of update) (\<lambda>m.
     reply_text env formatted))))))))"

definition handle_image :: "'img env \<Rightarrow> Update \<Rightarrow> Context \<Rightarrow> unit io" where
  "handle_image env update context =
     io_try (handle_image_try env update context) (\<lambda>e.
       io_bind (print (str ''IMAGE ERROR:'') e) (\<lambda>_.
       io_bind (message_of update) (\<lambda>m.
       reply_text env IMAGE_FAILED)))"

section \<open>Notions used in the statements\<close>

text \<open>A text that \<open>strip\<close> leaves alone: empty, or with no white space at either end.\<close>

definition stripped :: "unicode \<Rightarrow> bool" where
  "stripped s \<longleftrightarrow> s = [] \<or> (\<not> isspace (hd s) \<and> \<not> isspace (last s))"

text \<open>A text without any of the three bullet glyphs.\<close>

definition glyph_free :: "unicode \<Rightarrow> bool" where
  "glyph_free s \<longleftrightarrow> BULLET \<notin> set s \<and> BLACK_CIRCLE \<notin> set s \<and> SMALL_SQUARE \<notin> set s"

text \<open>
  What a log shows: the replies that reached the user, in order, and the requests that
  were made to the generative backend.
\<close>

fun reply_of :: "call \<times> bool \<Rightarrow> unicode list" where
  "reply_of (ReplyText t, True) = [t]"
| "reply_of _ = []"

definition delivered :: "log \<Rightarrow> unicode list" where
  "delivered lg = concat (map reply_of lg)"

fun is_generation :: "call \<Rightarrow> bool" where
  "is_generation (GenerateContent m cs cfg) = True"
| "is_generation _ = False"

definition generated :: "log \<Rightarrow> call list" where
  "generated lg = filter is_generation (map fst lg)"

text \<open>
  Concrete surroundings for running the handlers: a bot named mybot whose collaborators
  all answer, with a backend that answers every request with the same text and an image
  library that recognises no input; the same with a transport that refuses every
  reply, as it does for a user who has blocked the bot; with a backend that is down; and
  with a transport that refuses the typing signal. The updates are a text message, a
  photo message in two sizes, and an edited message, which has no \<open>update.message\<close>.
\<close>

definition answering_env :: "unit env" where
  "answering_env =
     \<lparr>BOT_USERNAME = Some (str ''mybot''),
      reply_text_result = (\<lambda>lg t. None),
      send_chat_action_result = (\<lambda>lg chat_id action. None),
      get_file_result = (\<lambda>lg photo. Inr photo),
      download_result = (\<lambda>lg f. Inr [1, 2, 3]),
      generate_content_result = (\<lambda>lg model contents config. Inr (Some (str ''1. 4''))),
      image_open = (\<lambda>b. Inl UnidentifiedImageError),
      image_convert = (\<lambda>img mode. Inr img),
      image_save = (\<lambda>img fmt. Inr [])\<rparr>"

definition refusing_env :: "unit env" where
  "refusing_env = answering_env\<lparr>reply_text_result := (\<lambda>lg t. Some TelegramError)\<rparr>"

definition backend_down_env :: "unit env" where
  "backend_down_env =
     answering_env\<lparr>generate_content_result := (\<lambda>lg model contents config. Inl APIError)\<rparr>"

definition typing_refused_env :: "unit env" where
  "typing_refused_env =
     answering_env\<lparr>send_chat_action_result := (\<lambda>lg chat_id action. Some TelegramError)\<rparr>"

definition text_update :: "chat_type \<Rightarrow> unicode \<Rightarrow> Update" where
  "text_update kind t =
     \<lparr>message = Some \<lparr>msg_text = Some t, msg_chat_type = kind, msg_photo = []\<rparr>,
      effective_chat_id = 7\<rparr>"

definition photo_update :: Update where
  "photo_update =
     \<lparr>message = Some \<lparr>msg_text = None, msg_chat_type = PRIVATE,
                      msg_photo = [str ''small'', str ''large'']\<rparr>,
      effective_chat_id = 7\<rparr>"

definition edited_update :: Update where
  "edited_update = \<lparr>message = None, effective_chat_id = 7\<rparr>"

definition command_context :: "unicode list \<Rightarrow> Context" where
  "command_context xs = \<lparr>args = xs\<rparr>"

section \<open>Properties of the text operations\<close>

lemma startswith_single: "startswith [b] (x # xs) \<longleftrightarrow> x = b"
  by (auto simp: startswith_def)

lemma replace_single: "replace [b] [d] s = map (\<lambda>c. if c = b then d else c) s"
  by (induction s) (simp_all add: startswith_single)

lemma replace_absent: "old \<noteq> [] \<Longrightarrow> \<not> contains old s \<Longrightarrow> replace old new s = s"
  by (induction s) simp_all

lemma set_replace_subset: "old \<noteq> [] \<Longrightarrow> set (replace old new s) \<subseteq> set s \<union> set new"
proof (induction old new s rule: replace.induct)
  case (1 old new)
  then show ?case by simp
next
  case (2 old new x xs)
  show ?case
  proof (cases "startswith old (x # xs)")
    case True
    have "set (drop (length old) (x # xs)) \<subseteq> set (x # xs)"
      by (rule set_drop_subset)
    with 2(2) [OF 2(4) True 2(4)] show ?thesis
      unfolding replace_Cons_match [OF 2(4) True] by auto
  next
    case False
    with 2(3) [OF 2(4) False 2(4)] show ?thesis
      unfolding replace_Cons_skip [OF 2(4) False] by auto
  qed
qed

lemma collapse_no_triple: "\<not> contains [NL, NL, NL] (collapse_blank_lines s)"
proof (induction s rule: collapse_blank_lines.induct)
  case (1 ans)
  show ?case
  proof (cases "contains [NL, NL, NL] ans")
    case True
    with 1 show ?thesis by (subst collapse_blank_lines.simps) simp
  next
    case False
    then show ?thesis by (subst collapse_blank_lines.simps) simp
  qed
qed

lemma collapse_fixed: "\<not> contains [NL, NL, NL] s \<Longrightarrow> collapse_blank_lines s = s"
  by (subst collapse_blank_lines.simps) simp

lemma length_collapse_le: "length (collapse_blank_lines s) \<le> length s"
proof (induction s rule: collapse_blank_lines.induct)
  case (1 ans)
  show ?case
  proof (cases "contains [NL, NL, NL] ans")
    case True
    have "length (replace [NL, NL, NL] [NL, NL] ans) \<le> length ans"
      by (rule length_replace_le) simp_all
    with 1 [OF True] True show ?thesis by (subst collapse_blank_lines.simps) simp
  next
    case False
    then show ?thesis by (simp add: collapse_fixed)
  qed
qed

lemma set_collapse_subset: "set (collapse_blank_lines s) \<subseteq> set s \<union> {NL}"
proof (induction s rule: collapse_blank_lines.induct)
  case (1 ans)
  show ?case
  proof (cases "contains [NL, NL, NL] ans")
    case True
    have "set (replace [NL, NL, NL] [NL, NL] ans) \<subseteq> set ans \<union> set [NL, NL]"
      by (rule set_replace_subset) simp
    with 1 [OF True] True show ?thesis by (subst collapse_blank_lines.simps) auto
  next
    case False
    then show ?thesis by (auto simp: collapse_fixed)
  qed
qed

lemma lstrip_stripped_hd: "lstrip s = [] \<or> \<not> isspace (hd (lstrip s))"
  unfolding lstrip_def by (metis hd_dropWhile)

lemma rstrip_prefix: "\<exists>zs. t = rstrip t @ zs"
proof -
  have "rstrip t @ rev (takeWhile isspace (rev t))
      = rev (takeWhile isspace (rev t) @ dropWhile isspace (rev t))"
    unfolding rstrip_def by (simp only: rev_append)
  also have "\<dots> = rev (rev t)" by (simp only: takeWhile_dropWhile_id)
  also have "\<dots> = t" by simp
  finally show ?thesis by metis
qed

lemma rstrip_last: "rstrip t = [] \<or> \<not> isspace (last (rstrip t))"
proof (cases "dropWhile isspace (rev t) = []")
  case True
  then show ?thesis by (simp add: rstrip_def)
next
  case False
  then have "\<not> isspace (hd (dropWhile isspace (rev t)))" by (rule hd_dropWhile)
  then show ?thesis using False by (simp add: rstrip_def last_rev)
qed

lemma rstrip_hd: "rstrip t \<noteq> [] \<Longrightarrow> hd (rstrip t) = hd t"
proof -
  assume ne: "rstrip t \<noteq> []"
  obtain zs where "t = rstrip t @ zs" using rstrip_prefix by blast
  then have "hd t = hd (rstrip t @ zs)" by simp
  also have "\<dots> = hd (rstrip t)" using ne by simp
  finally show ?thesis by simp
qed

lemma strip_stripped: "stripped (strip s)"
proof (cases "strip s = []")
  case True
  then show ?thesis by (simp add: stripped_def)
next
  case False
  then have ne: "rstrip (lstrip s) \<noteq> []" by (simp add: strip_def)
  then have "lstrip s \<noteq> []" by (auto simp: rstrip_def)
  then have "\<not> isspace (hd (lstrip s))" using lstrip_stripped_hd by blast
  then have "\<not> isspace (hd (strip s))" using rstrip_hd [OF ne] by (simp add: strip_def)
  moreover have "\<not> isspace (last (strip s))"
    using rstrip_last [of "lstrip s"] ne by (simp add: strip_def)
  ultimately show ?thesis by (simp add: stripped_def)
qed

lemma strip_id: "stripped s \<Longrightarrow> strip s = s"
proof (cases s)
  case Nil
  then show ?thesis by (simp add: strip_def lstrip_def rstrip_def)
next
  case (Cons x xs)
  assume "stripped s"
  with Cons have h: "\<not> isspace (hd s)" and l: "\<not> isspace (last s)"
    by (simp_all add: stripped_def)
  from h Cons have "lstrip s = s" by (simp add: lstrip_def)
  moreover have "rstrip s = s"
  proof -
    from Cons have "rev s \<noteq> []" by simp
    then obtain y ys where r: "rev s = y # ys" by (cases "rev s") auto
    then have "y = last s" using Cons by (metis hd_rev list.sel(1))
    with l have "dropWhile isspace (rev s) = rev s" unfolding r by simp
    then show ?thesis by (simp add: rstrip_def)
  qed
  ultimately show ?thesis by (simp add: strip_def)
qed

lemma replace_keeps_hd:
  "old \<noteq> [] \<Longrightarrow> s \<noteq> [] \<Longrightarrow> hd s \<noteq> hd old \<Longrightarrow>
   replace old new s \<noteq> [] \<and> hd (replace old new s) = hd s"
proof (cases s)
  case Nil
  assume "s \<noteq> []"
  with Nil show ?thesis by simp
next
  case (Cons x xs)
  assume ne: "old \<noteq> []" and "hd s \<noteq> hd old"
  with Cons have "\<not> startswith old (x # xs)"
    by (cases old) (auto simp: startswith_def)
  with ne Cons show ?thesis by simp
qed

lemma replace_keeps_last:
  "old \<noteq> [] \<Longrightarrow> s \<noteq> [] \<Longrightarrow> last s \<notin> set old \<Longrightarrow>
   replace old new s \<noteq> [] \<and> last (replace old new s) = last s"
proof (induction old new s rule: replace.induct)
  case (1 old new)
  then show ?case by simp
next
  case (2 old new x xs)
  show ?case
  proof (cases "startswith old (x # xs)")
    case True
    let ?rest = "drop (length old) (x # xs)"
    have eq: "x # xs = old @ ?rest"
      using True by (metis append_take_drop_id startswith_def)
    have rest_ne: "?rest \<noteq> []"
    proof
      assume "?rest = []"
      with eq have "x # xs = old" by simp
      then have "last (x # xs) \<in> set old" using last_in_set [of old] 2(4) by simp
      with 2(6) show False by simp
    qed
    have "last (x # xs) = last ?rest"
      using eq rest_ne by (metis last_appendR)
    with 2(2) [OF 2(4) True 2(4) rest_ne] 2(6)
    have "replace old new ?rest \<noteq> [] \<and> last (replace old new ?rest) = last (x # xs)"
      by simp
    then show ?thesis
      unfolding replace_Cons_match [OF 2(4) True] by simp
  next
    case False
    show ?thesis
    proof (cases xs)
      case Nil
      then show ?thesis using 2(4) False by simp
    next
      case (Cons y ys)
      then have "xs \<noteq> []" and "last (x # xs) = last xs" by simp_all
      with 2(3) [OF 2(4) False 2(4)] 2(6)
      have "replace old new xs \<noteq> [] \<and> last (replace old new xs) = last xs" by simp
      then show ?thesis
        unfolding replace_Cons_skip [OF 2(4) False] using Cons by simp
    qed
  qed
qed

text \<open>Where \<open>replace\<close> finds its occurrences.\<close>

lemma contains_length: "contains m s \<Longrightarrow> length m \<le> length s"
  by (induction s) (auto dest: startswith_length)

lemma startswith_append_long:
  "length m \<le> length s \<Longrightarrow> startswith m (s @ t) \<longleftrightarrow> startswith m s"
  by (simp add: startswith_def)

lemma replace_at_occurrence:
  assumes "m \<noteq> []"
  shows "\<not> contains m (p @ butlast m) \<Longrightarrow>
    replace m new (p @ m @ rest) = p @ new @ replace m new rest"
proof (induction p)
  case Nil
  from assms obtain x m' where m: "m = x # m'" by (cases m) auto
  have "startswith m (x # (m' @ rest))" by (simp add: startswith_def m)
  then have "replace m new (x # (m' @ rest)) = new @ replace m new (drop (length m) (x # (m' @ rest)))"
    using assms by (rule replace_Cons_match [rotated])
  then show ?case by (simp add: m)
next
  case (Cons x p)
  have len: "length m \<le> length (x # p @ butlast m)" by simp
  from Cons.prems have ns: "\<not> startswith m (x # p @ butlast m)"
    and nc: "\<not> contains m (p @ butlast m)" by simp_all
  have e: "x # p @ m @ rest = (x # p @ butlast m) @ (last m # rest)"
    using assms by simp
  have "startswith m (x # p @ m @ rest) \<longleftrightarrow> startswith m (x # p @ butlast m)"
    unfolding e by (rule startswith_append_long [OF len])
  with ns have "\<not> startswith m (x # (p @ m @ rest))" by simp
  then have "replace m new (x # (p @ m @ rest)) = x # replace m new (p @ m @ rest)"
    using assms by (rule replace_Cons_skip [rotated])
  with Cons.IH [OF nc] show ?case by simp
qed

lemma no_straddling_occurrence:
  assumes "c \<notin> set h"
  shows "\<not> contains (c # h) p \<Longrightarrow> \<not> contains (c # h) (p @ butlast (c # h))"
proof (induction p)
  case Nil
  have "length (butlast (c # h)) < length (c # h)" by simp
  then show ?case using contains_length [of "c # h" "butlast (c # h)"] by auto
next
  case (Cons x p)
  from Cons.prems have ns: "\<not> startswith (c # h) (x # p)" and nc: "\<not> contains (c # h) p"
    by simp_all
  have "\<not> startswith (c # h) (x # p @ butlast (c # h))"
  proof
    assume sw: "startswith (c # h) (x # p @ butlast (c # h))"
    show False
    proof (cases "length (c # h) \<le> length (x # p)")
      case True
      from sw have "startswith (c # h) ((x # p) @ butlast (c # h))" by simp
      with startswith_append_long [OF True] ns show False by blast
    next
      case False
      then have short: "length p < length h" by simp
      from sw have eq: "take (Suc (length h)) (x # p @ butlast (c # h)) = c # h"
        by (simp add: startswith_def)
      then have hp: "h = take (length h) (p @ butlast (c # h))" by simp
      from short have hne: "h \<noteq> []" by auto
      then have "butlast (c # h) = c # butlast h" by simp
      with hp have "h = take (length h) (p @ c # butlast h)" by simp
      then have "h = p @ take (length h - length p) (c # butlast h)"
        using short by simp
      moreover from short obtain k where "length h - length p = Suc k"
        by (cases "length h - length p") auto
      ultimately have "h = p @ c # take k (butlast h)" by simp
      then have "c \<in> set h" by (metis in_set_conv_decomp)
      with assms show False by simp
    qed
  qed
  with Cons.IH [OF nc] show ?case by simp
qed

lemma replace_join:
  assumes "c \<notin> set h"
  shows "\<forall>p\<in>set ps. \<not> contains (c # h) p \<Longrightarrow>
    replace (c # h) new (join (c # h) ps) = join new ps"
proof (induction "c # h" ps rule: join.induct)
  case 1
  then show ?case by simp
next
  case (2 x)
  then show ?case by (simp add: replace_absent)
next
  case (3 x y ys)
  from 3(2) have "\<not> contains (c # h) x" by simp
  then have "\<not> contains (c # h) (x @ butlast (c # h))"
    by (rule no_straddling_occurrence [OF assms])
  then have "replace (c # h) new (x @ (c # h) @ join (c # h) (y # ys))
      = x @ new @ replace (c # h) new (join (c # h) (y # ys))"
    by (rule replace_at_occurrence [rotated]) simp
  moreover have "replace (c # h) new (join (c # h) (y # ys)) = join new (y # ys)"
    using 3 by simp
  ultimately show ?case by simp
qed

lemma join_Nil_sep: "join [] ps = concat ps"
  by (induction "[] :: 'a list" ps rule: join.induct) simp_all

section \<open>Properties of the answer formatter\<close>

lemma contains_iff: "contains sub s \<longleftrightarrow> (\<exists>ps ss. s = ps @ sub @ ss)"
proof (induction s)
  case Nil
  then show ?case by auto
next
  case (Cons x xs)
  have sw: "startswith sub (x # xs) \<longleftrightarrow> (\<exists>ss. x # xs = sub @ ss)"
  proof
    assume "startswith sub (x # xs)"
    then have "x # xs = sub @ drop (length sub) (x # xs)"
      by (metis append_take_drop_id startswith_def)
    then show "\<exists>ss. x # xs = sub @ ss" ..
  next
    assume "\<exists>ss. x # xs = sub @ ss"
    then show "startswith sub (x # xs)" by (auto simp: startswith_def)
  qed
  show ?case
  proof
    assume "contains sub (x # xs)"
    then consider "startswith sub (x # xs)" | "contains sub xs" by auto
    then show "\<exists>ps ss. x # xs = ps @ sub @ ss"
    proof cases
      case 1
      then obtain ss where "x # xs = [] @ sub @ ss" using sw by auto
      then show ?thesis by blast
    next
      case 2
      then obtain ps ss where "xs = ps @ sub @ ss" using Cons by blast
      then have "x # xs = (x # ps) @ sub @ ss" by simp
      then show ?thesis by blast
    qed
  next
    assume "\<exists>ps ss. x # xs = ps @ sub @ ss"
    then obtain ps ss where e: "x # xs = ps @ sub @ ss" by blast
    show "contains sub (x # xs)"
    proof (cases ps)
      case Nil
      with e have "startswith sub (x # xs)" using sw by auto
      then show ?thesis by simp
    next
      case (Cons p ps')
      with e have "xs = ps' @ sub @ ss" by simp
      then have "contains sub xs" using Cons.IH by blast
      then show ?thesis by simp
    qed
  qed
qed

lemma isspace_HYPHEN: "\<not> isspace HYPHEN"
  by (simp add: isspace_def HYPHEN_def)

lemma isspace_NL: "isspace NL"
  by (simp add: isspace_def NL_def)

lemma stripped_replace_single:
  assumes "stripped s"
  shows "stripped (replace [b] [HYPHEN] s)"
proof (cases "s = []")
  case True
  then show ?thesis by (simp add: stripped_def)
next
  case False
  with assms have "\<not> isspace (hd s)" and "\<not> isspace (last s)"
    by (simp_all add: stripped_def)
  with False show ?thesis
    by (simp add: replace_single stripped_def hd_map last_map isspace_HYPHEN)
qed

lemma stripped_replace_blank:
  assumes "stripped s"
  shows "stripped (replace [NL, NL, NL] [NL, NL] s)"
proof (cases "s = []")
  case True
  then show ?thesis by (simp add: stripped_def)
next
  case False
  with assms have h: "\<not> isspace (hd s)" and l: "\<not> isspace (last s)"
    by (simp_all add: stripped_def)
  from h have "hd s \<noteq> hd [NL, NL, NL]" using isspace_NL by auto
  then have 1: "replace [NL, NL, NL] [NL, NL] s \<noteq> [] \<and>
      hd (replace [NL, NL, NL] [NL, NL] s) = hd s"
    using False by (intro replace_keeps_hd) simp_all
  from l have "last s \<notin> set [NL, NL, NL]" using isspace_NL by auto
  then have 2: "replace [NL, NL, NL] [NL, NL] s \<noteq> [] \<and>
      last (replace [NL, NL, NL] [NL, NL] s) = last s"
    using False by (intro replace_keeps_last) simp_all
  from 1 2 h l show ?thesis by (simp add: stripped_def)
qed

lemma stripped_collapse: "stripped s \<Longrightarrow> stripped (collapse_blank_lines s)"
proof (induction s rule: collapse_blank_lines.induct)
  case (1 ans)
  show ?case
  proof (cases "contains [NL, NL, NL] ans")
    case True
    from 1(1) [OF True stripped_replace_blank [OF 1(2)]] True
    show ?thesis by (subst collapse_blank_lines.simps) simp
  next
    case False
    with 1(2) show ?thesis by (simp add: collapse_fixed)
  qed
qed

lemma replace_single_absent: "b \<notin> set s \<Longrightarrow> replace [b] [d] s = s"
  by (induction s) (auto simp: startswith_single)

lemma glyph_free_replaced:
  "glyph_free (replace [SMALL_SQUARE] [HYPHEN]
         (replace [BLACK_CIRCLE] [HYPHEN] (replace [BULLET] [HYPHEN] s)))"
  by (auto simp: glyph_free_def replace_single BULLET_def BLACK_CIRCLE_def SMALL_SQUARE_def
      HYPHEN_def)

lemma glyph_free_collapse: "glyph_free s \<Longrightarrow> glyph_free (collapse_blank_lines s)"
  using set_collapse_subset [of s]
  by (auto simp: glyph_free_def BULLET_def BLACK_CIRCLE_def SMALL_SQUARE_def NL_def)

lemma glyph_free_format_answer: "glyph_free (format_answer T)"
  unfolding format_answer_def by (intro glyph_free_collapse glyph_free_replaced)

lemma stripped_format_answer: "stripped (format_answer T)"
  unfolding format_answer_def
  by (intro stripped_collapse stripped_replace_single strip_stripped)

lemma format_answer_fixed:
  assumes "stripped s" and "glyph_free s" and "\<not> contains [NL, NL, NL] s"
  shows "format_answer s = s"
proof -
  from assms(2) have "replace [SMALL_SQUARE] [HYPHEN]
         (replace [BLACK_CIRCLE] [HYPHEN] (replace [BULLET] [HYPHEN] s)) = s"
    by (simp add: glyph_free_def replace_single_absent)
  with assms(1,3) show ?thesis
    by (simp add: format_answer_def strip_id collapse_fixed)
qed

text \<open>
  Claim C1. The answer formatter is idempotent: formatting a formatted answer changes
  nothing, for every input text.
\<close>

theorem format_answer_idempotent: "format_answer (format_answer T) = format_answer T"
proof (rule format_answer_fixed)
  show "stripped (format_answer T)" by (rule stripped_format_answer)
  show "glyph_free (format_answer T)" by (rule glyph_free_format_answer)
  show "\<not> contains [NL, NL, NL] (format_answer T)"
    unfolding format_answer_def by (rule collapse_no_triple)
qed

text \<open>
  Claim C2. For every input text, the formatted answer holds none of the three bullet
  glyphs and no run of three or more newline characters: the text \<open>"\n\n\n"\<close> occurs
  nowhere in it.
\<close>

theorem format_answer_clean:
  "BULLET \<notin> set (format_answer T) \<and> BLACK_CIRCLE \<notin> set (format_answer T) \<and>
   SMALL_SQUARE \<notin> set (format_answer T) \<and>
   \<not> contains [NL, NL, NL] (format_answer T) \<and>
   (\<nexists>ps ss. format_answer T = ps @ [NL, NL, NL] @ ss)"
proof -
  have "\<not> contains [NL, NL, NL] (format_answer T)"
    unfolding format_answer_def by (rule collapse_no_triple)
  moreover from this have "\<nexists>ps ss. format_answer T = ps @ [NL, NL, NL] @ ss"
    by (simp add: contains_iff)
  ultimately show ?thesis
    using glyph_free_format_answer [of T] by (simp add: glyph_free_def)
qed

text \<open>
  Claim C10. The answer formatter never lengthens its input: the formatted answer has at
  most as many characters as the input text.
\<close>

theorem format_answer_length: "length (format_answer T) \<le> length T"
proof -
  have "length (strip T) \<le> length T"
    unfolding strip_def rstrip_def lstrip_def
    using length_dropWhile_le [of isspace "rev (dropWhile isspace T)"]
      length_dropWhile_le [of isspace T] by simp
  moreover have "length (format_answer T) \<le> length (strip T)"
    unfolding format_answer_def
    using length_collapse_le [of "replace [SMALL_SQUARE] [HYPHEN]
         (replace [BLACK_CIRCLE] [HYPHEN] (replace [BULLET] [HYPHEN] (strip T)))"]
    by (simp add: replace_single)
  ultimately show ?thesis by simp
qed

section \<open>Properties of the image conversion\<close>

text \<open>
  Claim C7. For bytes that cannot be decoded as an image, that is when opening the image,
  converting it or writing it raises an exception of class \<open>Exception\<close>, \<open>to_jpeg\<close>
  raises nothing and returns the input bytes unchanged.
\<close>

theorem to_jpeg_passthrough:
  assumes "(\<exists>e. image_open env img_bytes = Inl e \<and> is_Exception e)
    \<or> (\<exists>img e. image_open env img_bytes = Inr img
          \<and> image_convert env img (str ''RGB'') = Inl e \<and> is_Exception e)
    \<or> (\<exists>img rgb e. image_open env img_bytes = Inr img
          \<and> image_convert env img (str ''RGB'') = Inr rgb
          \<and> image_save env rgb (str ''JPEG'') = Inl e \<and> is_Exception e)"
  shows "to_jpeg env img_bytes = Inr img_bytes"
  using assms by (auto simp: to_jpeg_def)

text \<open>
  Three bytes that the image library does not recognise.
\<close>

theorem to_jpeg_passthrough_witness:
  "to_jpeg answering_env [1, 2, 3] = Inr [1, 2, 3]"
proof -
  have "\<exists>e. image_open answering_env [1, 2, 3] = Inl e \<and> is_Exception e"
    by (simp add: answering_env_def)
  then show ?thesis using to_jpeg_passthrough [of answering_env "[1, 2, 3]"] by blast
qed

section \<open>Properties of the handlers\<close>

lemmas env_defs = answering_env_def refusing_env_def backend_down_env_def typing_refused_env_def
  text_update_def photo_update_def edited_update_def command_context_def

text \<open>
  The joined argument text of a command is empty for no arguments and for the single
  empty argument only.
\<close>

lemma join_eq_Nil_iff: "sep \<noteq> [] \<Longrightarrow> join sep xs = [] \<longleftrightarrow> xs = [] \<or> xs = [[]]"
  by (induction sep xs rule: join.induct) auto

lemmas io_defs = io_bind_def io_return_def io_lift_def io_call_def io_try_def raised_def
  reply_text_def send_chat_action_def get_file_def download_as_bytearray_def
  generate_content_def print_def message_of_def

text \<open>
  Reading \<open>update.message\<close> goes on with the message when there is one, and raises
  without a call when there is none.
\<close>

lemma message_of_Some: "message update = Some m \<Longrightarrow> io_bind (message_of update) f = f m"
  by (rule ext) (simp add: io_bind_def message_of_def io_lift_def)

lemma message_of_None:
  "message update = None \<Longrightarrow> io_bind (message_of update) f lg = (Inl AttributeError, lg)"
  by (simp add: io_bind_def message_of_def io_lift_def)

lemma delivered_append: "delivered (xs @ ys) = delivered xs @ delivered ys"
  by (simp add: delivered_def)

lemma delivered_Cons: "delivered (x # xs) = reply_of x @ delivered xs"
  by (simp add: delivered_def)

lemma delivered_Nil: "delivered [] = []"
  by (simp add: delivered_def)

text \<open>
  A \<open>try\<close> block of the photo handler that raises has delivered no reply, and on an
  update without a message it raises at the photo access, before any call.
\<close>

lemma handle_image_try_failure:
  "handle_image_try env update context lg = (Inl e, lg') \<Longrightarrow> delivered lg' = delivered lg"
  by (auto simp: handle_image_try_def solve_image_def io_defs delivered_append delivered_Cons
      delivered_Nil split: sum.splits option.splits list.splits prod.splits if_splits)

lemma handle_image_try_no_message:
  "message update = None \<Longrightarrow>
   handle_image_try env update context lg = (Inl AttributeError, lg)"
  by (simp add: handle_image_try_def message_of_None)

lemma generated_append: "generated (xs @ ys) = generated xs @ generated ys"
  by (simp add: generated_def)

lemma generated_Cons:
  "generated (x # xs) = (if is_generation (fst x) then [fst x] else []) @ generated xs"
  by (simp add: generated_def)

lemma generated_Nil: "generated [] = []"
  by (simp add: generated_def)

text \<open>
  The common tail of the text handlers: the request reaches the backend exactly when the
  typing signal before it was accepted.
\<close>

lemma answer_generated:
  "generated (snd (io_bind (send_chat_action env chat_id (str ''typing'')) (\<lambda>_.
            io_bind (solve_text env t) (\<lambda>ans.
            io_bind (io_lift (format_response ans)) (\<lambda>formatted.
            io_bind (message_of update) (\<lambda>m.
            reply_text env formatted)))) lg))
     = generated lg @
       (if send_chat_action_result env lg chat_id (str ''typing'') = None
        then [GenerateContent MODEL [Text PROMPT, Text t] CONFIG] else [])"
  by (auto simp: solve_text_def io_defs generated_append generated_Cons generated_Nil
      split: sum.splits option.splits prod.splits)

lemma handle_text_group:
  assumes "message update = Some m"
    and "msg_chat_type m = GROUP \<or> msg_chat_type m = SUPERGROUP"
  shows "handle_text env update context =
     (if \<not> contains (mention (BOT_USERNAME env)) (or_empty (msg_text m))
      then io_return ()
      else io_bind (send_chat_action env (effective_chat_id update) (str ''typing'')) (\<lambda>_.
            io_bind (solve_text env
               (strip (replace (mention (BOT_USERNAME env)) [] (or_empty (msg_text m))))) (\<lambda>ans.
            io_bind (io_lift (format_response ans)) (\<lambda>formatted.
            io_bind (message_of update) (\<lambda>m.
            reply_text env formatted)))))"
  using assms(2) unfolding handle_text_def message_of_Some [OF assms(1)]
  by (auto simp: Let_def)

lemma handle_text_other:
  assumes "message update = Some m"
    and "msg_chat_type m \<noteq> GROUP" and "msg_chat_type m \<noteq> SUPERGROUP"
  shows "handle_text env update context =
      io_bind (send_chat_action env (effective_chat_id update) (str ''typing'')) (\<lambda>_.
            io_bind (solve_text env (or_empty (msg_text m))) (\<lambda>ans.
            io_bind (io_lift (format_response ans)) (\<lambda>formatted.
            io_bind (message_of update) (\<lambda>m.
            reply_text env formatted))))"
  using assms(2,3) unfolding handle_text_def message_of_Some [OF assms(1)]
  by (simp add: Let_def)

subsection \<open>The solve command\<close>

text \<open>
  The definitions that running a text handler on a concrete message unfolds.
\<close>

lemmas text_eval = handle_text_def solve_cmd_def solve_text_def format_response_def Let_def
  mention_def or_empty_def str_def startswith_def strip_def lstrip_def rstrip_def isspace_def

text \<open>
  Claim C4, as the code has it. For the solve command without arguments no request goes
  to the generative backend, and on an update that carries a message the only call made
  is the reply \<open>"Usage: /solve <questions>"\<close>. When the joined argument text is not
  empty, the text-mode request with the joined argument text is made exactly when the
  transport accepted the typing signal before it; when moreover the backend answers the
  request with a text and the update carries a message, the calls made are the typing
  signal, that request, and the reply with the formatted answer.
\<close>

theorem solve_cmd_routing:
  "(args context = [] \<longrightarrow> generated (snd (solve_cmd env update context lg)) = generated lg)
   \<and> (args context = [] \<and> message update = Some m \<longrightarrow>
        snd (solve_cmd env update context lg)
          = lg @ [(ReplyText USAGE, reply_text_result env lg USAGE = None)])
   \<and> (join (str '' '') (args context) \<noteq> [] \<longrightarrow>
        generated (snd (solve_cmd env update context lg))
          = generated lg @
            (if send_chat_action_result env lg (effective_chat_id update) (str ''typing'') = None
             then [GenerateContent MODEL
                     [Text PROMPT, Text (join (str '' '') (args context))] CONFIG]
             else []))
   \<and> (join (str '' '') (args context) \<noteq> []
      \<and> send_chat_action_result env lg (effective_chat_id update) (str ''typing'') = None
      \<and> generate_content_result env
           (lg @ [(SendChatAction (effective_chat_id update) (str ''typing''), True)])
           MODEL [Text PROMPT, Text (join (str '' '') (args context))] CONFIG = Inr (Some ans)
      \<and> message update = Some m
      \<longrightarrow>
      snd (solve_cmd env update context lg)
        = lg @ [(SendChatAction (effective_chat_id update) (str ''typing''), True),
                (GenerateContent MODEL [Text PROMPT, Text (join (str '' '') (args context))] CONFIG,
                 True),
                (ReplyText (format_answer ans),
                 reply_text_result env
                   (lg @ [(SendChatAction (effective_chat_id update) (str ''typing''), True),
                          (GenerateContent MODEL
                             [Text PROMPT, Text (join (str '' '') (args context))] CONFIG, True)])
                   (format_answer ans) = None)])"
proof (intro conjI impI)
  assume a: "args context = []"
  show "generated (snd (solve_cmd env update context lg)) = generated lg"
    using a
    by (cases "message update")
      (simp_all add: solve_cmd_def io_defs generated_append generated_Cons generated_Nil
        split: option.splits)
next
  assume a: "args context = [] \<and> message update = Some m"
  show "snd (solve_cmd env update context lg)
        = lg @ [(ReplyText USAGE, reply_text_result env lg USAGE = None)]"
    using a by (simp add: solve_cmd_def io_defs split: option.splits)
next
  assume a: "join (str '' '') (args context) \<noteq> []"
  then have "solve_cmd env update context =
      io_bind (send_chat_action env (effective_chat_id update) (str ''typing'')) (\<lambda>_.
        io_bind (solve_text env (join (str '' '') (args context))) (\<lambda>ans.
        io_bind (io_lift (format_response ans)) (\<lambda>formatted.
        io_bind (message_of update) (\<lambda>m.
        reply_text env formatted))))"
    by (simp add: solve_cmd_def Let_def)
  then show "generated (snd (solve_cmd env update context lg))
          = generated lg @
            (if send_chat_action_result env lg (effective_chat_id update) (str ''typing'') = None
             then [GenerateContent MODEL
                     [Text PROMPT, Text (join (str '' '') (args context))] CONFIG]
             else [])"
    using answer_generated [of env "effective_chat_id update" _ update lg] by simp
next
  assume "join (str '' '') (args context) \<noteq> []
      \<and> send_chat_action_result env lg (effective_chat_id update) (str ''typing'') = None
      \<and> generate_content_result env
           (lg @ [(SendChatAction (effective_chat_id update) (str ''typing''), True)])
           MODEL [Text PROMPT, Text (join (str '' '') (args context))] CONFIG = Inr (Some ans)
      \<and> message update = Some m"
  then show "snd (solve_cmd env update context lg)
        = lg @ [(SendChatAction (effective_chat_id update) (str ''typing''), True),
                (GenerateContent MODEL [Text PROMPT, Text (join (str '' '') (args context))] CONFIG,
                 True),
                (ReplyText (format_answer ans),
                 reply_text_result env
                   (lg @ [(SendChatAction (effective_chat_id update) (str ''typing''), True),
                          (GenerateContent MODEL
                             [Text PROMPT, Text (join (str '' '') (args context))] CONFIG, True)])
                   (format_answer ans) = None)]"
    by (simp add: solve_cmd_def solve_text_def format_response_def io_defs Let_def
        split: option.splits)
qed

lemma format_answer_example: "format_answer (str ''1. 4'') = str ''1. 4''"
  by (simp add: format_answer_def strip_def lstrip_def rstrip_def isspace_def str_def
      collapse_blank_lines.simps startswith_def NL_def BULLET_def BLACK_CIRCLE_def
      SMALL_SQUARE_def HYPHEN_def)

text \<open>
  The command without arguments, on a new message and on an edited one, and the command
  with three arguments.
\<close>

theorem solve_cmd_routing_witness:
  "snd (solve_cmd answering_env (text_update GROUP (str ''/solve'')) (command_context []) [])
     = [(ReplyText (str ''Usage: /solve <questions>''), True)]
   \<and> generated (snd (solve_cmd answering_env edited_update (command_context []) [])) = []
   \<and> snd (solve_cmd answering_env (text_update GROUP (str ''/solve What is 2+2?''))
           (command_context [str ''What'', str ''is'', str ''2+2?'']) [])
     = [(SendChatAction 7 (str ''typing''), True),
        (GenerateContent MODEL [Text PROMPT, Text (str ''What is 2+2?'')] CONFIG, True),
        (ReplyText (str ''1. 4''), True)]
   \<and> generated (snd (solve_cmd answering_env (text_update GROUP (str ''/solve What is 2+2?''))
           (command_context [str ''What'', str ''is'', str ''2+2?'']) []))
     = [GenerateContent MODEL [Text PROMPT, Text (str ''What is 2+2?'')] CONFIG]"
proof -
  let ?u = "text_update GROUP (str ''/solve'')"
  let ?v = "text_update GROUP (str ''/solve What is 2+2?'')"
  let ?m = "\<lparr>msg_text = Some (str ''/solve''), msg_chat_type = GROUP, msg_photo = []\<rparr>"
  let ?n = "\<lparr>msg_text = Some (str ''/solve What is 2+2?''), msg_chat_type = GROUP,
             msg_photo = []\<rparr>"
  let ?c = "command_context [str ''What'', str ''is'', str ''2+2?'']"
  have j: "join (str '' '') (args ?c) = str ''What is 2+2?''"
    by (simp add: command_context_def str_def)
  have 1: "args (command_context []) = []" by (simp add: command_context_def)
  have 2: "message ?u = Some ?m" by (simp add: text_update_def)
  have 3: "join (str '' '') (args ?c) \<noteq> []" unfolding j by (simp add: str_def)
  have 4: "send_chat_action_result answering_env [] (effective_chat_id ?v) (str ''typing'') = None"
    by (simp add: answering_env_def)
  have 5: "generate_content_result answering_env
           ([] @ [(SendChatAction (effective_chat_id ?v) (str ''typing''), True)])
           MODEL [Text PROMPT, Text (join (str '' '') (args ?c))] CONFIG = Inr (Some (str ''1. 4''))"
    by (simp add: answering_env_def)
  have 6: "message ?v = Some ?n" by (simp add: text_update_def)
  have 7: "effective_chat_id ?v = 7" by (simp add: text_update_def)
  have 8: "reply_text_result answering_env lg t = None" for lg t
    by (simp add: answering_env_def)
  show ?thesis
    using solve_cmd_routing [of "command_context []" answering_env ?u "[]" ?m]
      solve_cmd_routing [of "command_context []" answering_env edited_update "[]"]
      solve_cmd_routing [of ?c answering_env ?v "[]" ?n "str ''1. 4''"] 1 2 3 4 5 6
    by (simp add: j 7 8 format_answer_example USAGE_def generated_def)
qed

text \<open>
  The claim without these conditions fails. An edited solve command without arguments has
  no \<open>update.message\<close>: the usage reply raises before any call. And with three arguments
  and a transport that refuses the typing signal, the handler ends with that failure:
  nothing is sent to the backend and nothing is replied.
\<close>

theorem solve_cmd_answer_not_guaranteed:
  "args (command_context []) = []
   \<and> solve_cmd answering_env edited_update (command_context []) [] = (Inl AttributeError, [])
   \<and> args (command_context [str ''What'', str ''is'', str ''2+2?'']) \<noteq> []
   \<and> solve_cmd typing_refused_env (text_update GROUP (str ''/solve What is 2+2?''))
        (command_context [str ''What'', str ''is'', str ''2+2?'']) []
      = (Inl TelegramError, [(SendChatAction 7 (str ''typing''), False)])"
  by (simp add: solve_cmd_def Let_def io_defs env_defs str_def)

subsection \<open>Plain text messages\<close>

text \<open>
  Claim C5. A plain text message in a group or supergroup chat whose text does not contain
  the at sign followed by the bot's handle is ignored: the handler returns normally and
  makes no call at all, so it sends no reply and does not reach the generative backend.
\<close>

theorem handle_text_ignores_unaddressed:
  assumes "message update = Some m"
    and "msg_chat_type m = GROUP \<or> msg_chat_type m = SUPERGROUP"
    and "BOT_USERNAME env = Some handle"
    and "\<not> contains (str ''@'' @ handle) (or_empty (msg_text m))"
  shows "handle_text env update context lg = (Inr (), lg)"
  using assms(3,4) unfolding handle_text_group [OF assms(1,2)]
  by (simp add: mention_def io_return_def)

text \<open>
  Two unaddressed group messages, the second with an at sign but not the full handle.
\<close>

theorem handle_text_ignores_unaddressed_witness:
  "handle_text answering_env (text_update GROUP (str ''What is 2+2? (1m)'')) (command_context []) []
     = (Inr (), [])
   \<and> handle_text answering_env (text_update SUPERGROUP (str ''hello @my bot'')) (command_context []) []
     = (Inr (), [])"
proof -
  let ?m = "\<lparr>msg_text = Some (str ''What is 2+2? (1m)''), msg_chat_type = GROUP,
             msg_photo = []\<rparr>"
  let ?n = "\<lparr>msg_text = Some (str ''hello @my bot''), msg_chat_type = SUPERGROUP,
             msg_photo = []\<rparr>"
  have 1: "BOT_USERNAME answering_env = Some (str ''mybot'')"
    by (simp add: answering_env_def)
  have 2: "message (text_update GROUP (str ''What is 2+2? (1m)'')) = Some ?m"
    by (simp add: text_update_def)
  have 3: "message (text_update SUPERGROUP (str ''hello @my bot'')) = Some ?n"
    by (simp add: text_update_def)
  have 4: "msg_chat_type ?m = GROUP \<or> msg_chat_type ?m = SUPERGROUP" by simp
  have 5: "msg_chat_type ?n = GROUP \<or> msg_chat_type ?n = SUPERGROUP" by simp
  have 6: "\<not> contains (str ''@'' @ str ''mybot'') (or_empty (msg_text ?m))"
    by (simp add: or_empty_def str_def startswith_def)
  have 7: "\<not> contains (str ''@'' @ str ''mybot'') (or_empty (msg_text ?n))"
    by (simp add: or_empty_def str_def startswith_def)
  show ?thesis
    using handle_text_ignores_unaddressed [OF 2 4 1 6]
      handle_text_ignores_unaddressed [OF 3 5 1 7]
    by simp
qed

text \<open>
  Claim C6, as the code has it. For the group message \<open>"@mybot What is 2+2? (1m)"\<close> and
  the handle mybot, the mention is stripped and exactly \<open>"What is 2+2? (1m)"\<close> is passed
  to text-mode generation, when the transport accepted the typing signal before the
  request; when the typing signal raises, nothing is passed to generation.
\<close>

theorem handle_text_example_mention_stripped:
  assumes "message update = Some m"
    and "msg_chat_type m = GROUP \<or> msg_chat_type m = SUPERGROUP"
    and "BOT_USERNAME env = Some (str ''mybot'')"
    and "msg_text m = Some (str ''@mybot What is 2+2? (1m)'')"
  shows "generated (snd (handle_text env update context lg))
     = generated lg @
       (if send_chat_action_result env lg (effective_chat_id update) (str ''typing'') = None
        then [GenerateContent MODEL [Text PROMPT, Text (str ''What is 2+2? (1m)'')] CONFIG]
        else [])"
proof -
  have c: "contains (mention (BOT_USERNAME env)) (or_empty (msg_text m))"
    using assms(3,4) by (simp add: mention_def or_empty_def str_def startswith_def)
  have s: "strip (replace (mention (BOT_USERNAME env)) [] (or_empty (msg_text m)))
      = str ''What is 2+2? (1m)''"
    using assms(3,4)
    by (simp add: mention_def or_empty_def str_def startswith_def strip_def lstrip_def rstrip_def
        isspace_def)
  show ?thesis
    unfolding handle_text_group [OF assms(1,2)] using c s
      answer_generated [of env "effective_chat_id update" _ update lg]
    by simp
qed

text \<open>
  The message of claim C6 in a group chat with an answering transport.
\<close>

theorem handle_text_example_mention_stripped_witness:
  "generated (snd (handle_text answering_env
       (text_update GROUP (str ''@mybot What is 2+2? (1m)'')) (command_context []) []))
     = [GenerateContent MODEL [Text PROMPT, Text (str ''What is 2+2? (1m)'')] CONFIG]"
proof -
  let ?u = "text_update GROUP (str ''@mybot What is 2+2? (1m)'')"
  let ?m = "\<lparr>msg_text = Some (str ''@mybot What is 2+2? (1m)''), msg_chat_type = GROUP,
             msg_photo = []\<rparr>"
  have 1: "message ?u = Some ?m" by (simp add: text_update_def)
  have 2: "msg_chat_type ?m = GROUP \<or> msg_chat_type ?m = SUPERGROUP" by simp
  have 3: "BOT_USERNAME answering_env = Some (str ''mybot'')"
    by (simp add: answering_env_def)
  have 4: "msg_text ?m = Some (str ''@mybot What is 2+2? (1m)'')" by simp
  have 5: "send_chat_action_result answering_env [] (effective_chat_id ?u) (str ''typing'') = None"
    by (simp add: answering_env_def)
  show ?thesis
    using handle_text_example_mention_stripped [OF 1 2 3 4, of "command_context []" "[]"] 5
    by (simp add: generated_Nil)
qed

text \<open>
  The same message with a transport that refuses the typing signal: the handler ends with
  that failure after the one refused call, and nothing is passed to generation.
\<close>

theorem handle_text_example_typing_refused:
  "handle_text typing_refused_env (text_update GROUP (str ''@mybot What is 2+2? (1m)''))
       (command_context []) []
     = (Inl TelegramError, [(SendChatAction 7 (str ''typing''), False)])
   \<and> generated (snd (handle_text typing_refused_env
       (text_update GROUP (str ''@mybot What is 2+2? (1m)'')) (command_context []) [])) = []"
  by (simp add: text_eval io_defs env_defs generated_def)

text \<open>
  Claim C8, as the code has it. A plain text message in a chat that is neither a group
  nor a supergroup is forwarded to text-mode generation with its text as it is, whatever
  the text contains, when the transport accepted the typing signal before the request;
  when the typing signal raises, nothing is forwarded.
\<close>

theorem handle_text_direct_forwarded:
  assumes "message update = Some m"
    and "msg_chat_type m \<noteq> GROUP"
    and "msg_chat_type m \<noteq> SUPERGROUP"
  shows "generated (snd (handle_text env update context lg))
     = generated lg @
       (if send_chat_action_result env lg (effective_chat_id update) (str ''typing'') = None
        then [GenerateContent MODEL [Text PROMPT, Text (or_empty (msg_text m))] CONFIG]
        else [])"
  unfolding handle_text_other [OF assms]
  using answer_generated [of env "effective_chat_id update" _ update lg] by simp

text \<open>
  Two direct messages: one that names the bot, one with white space at both ends. Both
  reach the backend unchanged.
\<close>

theorem handle_text_direct_forwarded_witness:
  "generated (snd (handle_text answering_env
       (text_update PRIVATE (str ''@mybot What is 2+2? (1m)'')) (command_context []) []))
     = [GenerateContent MODEL [Text PROMPT, Text (str ''@mybot What is 2+2? (1m)'')] CONFIG]
   \<and> generated (snd (handle_text answering_env
       (text_update PRIVATE (str ''  define osmosis '')) (command_context []) []))
     = [GenerateContent MODEL [Text PROMPT, Text (str ''  define osmosis '')] CONFIG]"
proof -
  let ?u = "text_update PRIVATE (str ''@mybot What is 2+2? (1m)'')"
  let ?v = "text_update PRIVATE (str ''  define osmosis '')"
  let ?m = "\<lparr>msg_text = Some (str ''@mybot What is 2+2? (1m)''), msg_chat_type = PRIVATE,
             msg_photo = []\<rparr>"
  let ?n = "\<lparr>msg_text = Some (str ''  define osmosis ''), msg_chat_type = PRIVATE,
             msg_photo = []\<rparr>"
  have 1: "message ?u = Some ?m" and 2: "message ?v = Some ?n"
    by (simp_all add: text_update_def)
  have 3: "msg_chat_type ?m \<noteq> GROUP" and 4: "msg_chat_type ?m \<noteq> SUPERGROUP"
    and 5: "msg_chat_type ?n \<noteq> GROUP" and 6: "msg_chat_type ?n \<noteq> SUPERGROUP"
    by simp_all
  have 7: "send_chat_action_result answering_env [] c (str ''typing'') = None" for c
    by (simp add: answering_env_def)
  show ?thesis
    using handle_text_direct_forwarded [OF 1 3 4, of answering_env "command_context []" "[]"]
      handle_text_direct_forwarded [OF 2 5 6, of answering_env "command_context []" "[]"]
    by (simp add: generated_Nil 7 or_empty_def)
qed

text \<open>
  A direct message with a transport that refuses the typing signal: the handler ends with
  that failure and the message is not forwarded.
\<close>

theorem handle_text_direct_typing_refused:
  "handle_text typing_refused_env (text_update PRIVATE (str ''What is 2+2? (1m)''))
       (command_context []) []
     = (Inl TelegramError, [(SendChatAction 7 (str ''typing''), False)])
   \<and> generated (snd (handle_text typing_refused_env
       (text_update PRIVATE (str ''What is 2+2? (1m)'')) (command_context []) [])) = []"
  by (simp add: text_eval io_defs env_defs generated_def)

text \<open>
  Claim C9, as the code has it. In a group chat a request goes to the backend exactly when
  the at sign followed by the handle occurs somewhere in the text and the transport
  accepted the typing signal; the text sent is the message text with the occurrences
  replaced by nothing and then stripped. For a handle without an at sign, every
  occurrence goes, wherever it is: a text made of pieces free of the mention, with the
  mention between them, becomes the pieces put together. What follows a mention inside a
  longer token stays in the text.
\<close>

theorem handle_text_mention_gating:
  assumes "message update = Some m"
    and "msg_chat_type m = GROUP \<or> msg_chat_type m = SUPERGROUP"
    and "BOT_USERNAME env = Some handle"
  shows "generated (snd (handle_text env update context lg))
       = generated lg @
         (if contains (str ''@'' @ handle) (or_empty (msg_text m))
            \<and> send_chat_action_result env lg (effective_chat_id update) (str ''typing'') = None
          then [GenerateContent MODEL
                  [Text PROMPT,
                   Text (strip (replace (str ''@'' @ handle) [] (or_empty (msg_text m))))] CONFIG]
          else [])
     \<and> (of_char (CHR ''@'') \<notin> set handle \<longrightarrow>
          (\<forall>pieces. (\<forall>p\<in>set pieces. \<not> contains (str ''@'' @ handle) p) \<longrightarrow>
             replace (str ''@'' @ handle) [] (join (str ''@'' @ handle) pieces) = concat pieces))"
proof (intro conjI impI allI)
  have m: "mention (BOT_USERNAME env) = str ''@'' @ handle"
    using assms(3) by (simp add: mention_def)
  show "generated (snd (handle_text env update context lg))
       = generated lg @
         (if contains (str ''@'' @ handle) (or_empty (msg_text m))
            \<and> send_chat_action_result env lg (effective_chat_id update) (str ''typing'') = None
          then [GenerateContent MODEL
                  [Text PROMPT,
                   Text (strip (replace (str ''@'' @ handle) [] (or_empty (msg_text m))))] CONFIG]
          else [])"
    unfolding handle_text_group [OF assms(1,2)] m
    using answer_generated [of env "effective_chat_id update" _ update lg]
    by (simp add: io_return_def)
next
  fix pieces
  assume a: "of_char (CHR ''@'') \<notin> set handle"
    and p: "\<forall>p\<in>set pieces. \<not> contains (str ''@'' @ handle) p"
  have s: "str ''@'' @ handle = of_char (CHR ''@'') # handle" by (simp add: str_def)
  show "replace (str ''@'' @ handle) [] (join (str ''@'' @ handle) pieces) = concat pieces"
    using replace_join [OF a, of pieces "[]"] p unfolding s by (simp add: join_Nil_sep)
qed

text \<open>
  The handle mybot as a prefix of the token \<open>@mybotxyz\<close>, and a second mention in the
  middle of the text.
\<close>

theorem handle_text_mention_gating_witness:
  "generated (snd (handle_text answering_env
       (text_update GROUP (str ''@mybotxyz what is@mybot osmosis?'')) (command_context []) []))
     = [GenerateContent MODEL [Text PROMPT, Text (str ''xyz what is osmosis?'')] CONFIG]
   \<and> replace (str ''@mybot'') [] (str ''@mybotxyz what is@mybot osmosis?'')
     = str ''xyz what is osmosis?''"
proof -
  let ?u = "text_update GROUP (str ''@mybotxyz what is@mybot osmosis?'')"
  let ?m = "\<lparr>msg_text = Some (str ''@mybotxyz what is@mybot osmosis?''), msg_chat_type = GROUP,
             msg_photo = []\<rparr>"
  let ?ps = "[[], str ''xyz what is'', str '' osmosis?'']"
  have 0: "message ?u = Some ?m" by (simp add: text_update_def)
  have 1: "msg_chat_type ?m = GROUP \<or> msg_chat_type ?m = SUPERGROUP" by simp
  have 2: "BOT_USERNAME answering_env = Some (str ''mybot'')"
    by (simp add: answering_env_def)
  have 3: "send_chat_action_result answering_env [] (effective_chat_id ?u) (str ''typing'') = None"
    by (simp add: answering_env_def)
  have 4: "of_char (CHR ''@'') \<notin> set (str ''mybot'')" by (simp add: str_def)
  have 5: "\<forall>p\<in>set ?ps. \<not> contains (str ''@'' @ str ''mybot'') p"
    by (simp add: str_def startswith_def)
  have 6: "join (str ''@mybot'') ?ps = str ''@mybotxyz what is@mybot osmosis?''"
    by (simp add: str_def)
  have 7: "concat ?ps = str ''xyz what is osmosis?''" by (simp add: str_def)
  have 8: "str ''@'' @ str ''mybot'' = str ''@mybot''" by (simp add: str_def)
  have 9: "contains (str ''@mybot'') (str ''@mybotxyz what is@mybot osmosis?'')"
    by (simp add: str_def startswith_def)
  have 10: "strip (str ''xyz what is osmosis?'') = str ''xyz what is osmosis?''"
    by (simp add: str_def strip_def lstrip_def rstrip_def isspace_def)
  have 11: "or_empty (msg_text ?m) = str ''@mybotxyz what is@mybot osmosis?''"
    by (simp add: or_empty_def)
  from handle_text_mention_gating [OF 0 1 2, of "command_context []" "[]"] 4 5
  have r: "replace (str ''@'' @ str ''mybot'') [] (join (str ''@'' @ str ''mybot'') ?ps) = concat ?ps"
    and g: "generated (snd (handle_text answering_env ?u (command_context []) []))
       = generated [] @
         (if contains (str ''@'' @ str ''mybot'') (or_empty (msg_text ?m))
            \<and> send_chat_action_result answering_env [] (effective_chat_id ?u) (str ''typing'')
                = None
          then [GenerateContent MODEL
                  [Text PROMPT,
                   Text (strip (replace (str ''@'' @ str ''mybot'') []
                                  (or_empty (msg_text ?m))))] CONFIG]
          else [])"
    by blast+
  from r have r': "replace (str ''@mybot'') [] (str ''@mybotxyz what is@mybot osmosis?'')
      = str ''xyz what is osmosis?''"
    unfolding 8 6 7 .
  from g show ?thesis
    unfolding 8 11 using 9 r' 10 3 by (simp add: generated_Nil)
qed

text \<open>
  A group message that holds the handle as a prefix of a longer token, with a transport
  that refuses the typing signal: the gate lets the message through, and still nothing is
  sent to the backend.
\<close>

theorem handle_text_mention_typing_refused:
  "contains (str ''@mybot'') (str ''@mybotxyz what is osmosis?'')
   \<and> handle_text typing_refused_env (text_update GROUP (str ''@mybotxyz what is osmosis?''))
       (command_context []) []
     = (Inl TelegramError, [(SendChatAction 7 (str ''typing''), False)])
   \<and> generated (snd (handle_text typing_refused_env
       (text_update GROUP (str ''@mybotxyz what is osmosis?'')) (command_context []) [])) = []"
  by (simp add: text_eval io_defs env_defs generated_def)

subsection \<open>Photo messages\<close>

text \<open>
  With a transport that refuses every reply, the reply of the \<open>try\<close> block raises, the
  reply in the \<open>except\<close> block raises as well, and this second failure leaves the
  handler; the user receives nothing.
\<close>

theorem handle_image_failure_escapes:
  "fst (handle_image_try refusing_env photo_update (command_context []) []) = Inl TelegramError
   \<and> is_Exception TelegramError
   \<and> fst (handle_image refusing_env photo_update (command_context []) []) = Inl TelegramError
   \<and> delivered (snd (handle_image refusing_env photo_update (command_context []) [])) = []"
  by (simp add: handle_image_def handle_image_try_def solve_image_def to_jpeg_def
      format_response_def io_defs env_defs delivered_def)

text \<open>
  Claim C3, as the code has it. When a step of the \<open>try\<close> block of the photo handler
  raises an exception of class \<open>Exception\<close>, no reply of the block has reached the user
  and the handler prints the error. On an update that carries a message it then makes
  exactly one more call, the reply \<open>"Image processing failed."\<close>, and ends as that reply
  ends: normally when the reply is delivered, and with the reply's own failure otherwise.
  On an update without a message (an edited caption, a channel post) the failing step is
  the photo access, the reply in the \<open>except\<close> block raises before any reply call, and
  that failure leaves the handler with nothing delivered.
\<close>

theorem handle_image_failure_reported:
  assumes "handle_image_try env update context lg = (Inl e, lg')"
    and "is_Exception e"
  shows "delivered lg' = delivered lg
     \<and> (message update = Some m
          \<and> reply_text_result env (lg' @ [(Print (str ''IMAGE ERROR:'') e, True)]) IMAGE_FAILED = r
        \<longrightarrow>
          snd (handle_image env update context lg)
            = lg' @ [(Print (str ''IMAGE ERROR:'') e, True), (ReplyText IMAGE_FAILED, r = None)]
          \<and> delivered (snd (handle_image env update context lg))
            = delivered lg @ (if r = None then [IMAGE_FAILED] else [])
          \<and> fst (handle_image env update context lg) = raised r)
     \<and> (message update = None \<longrightarrow>
          e = AttributeError \<and> lg' = lg
          \<and> handle_image env update context lg
            = (Inl AttributeError, lg @ [(Print (str ''IMAGE ERROR:'') AttributeError, True)])
          \<and> delivered (snd (handle_image env update context lg)) = delivered lg)"
proof (intro conjI impI)
  show d: "delivered lg' = delivered lg"
    using assms(1) by (rule handle_image_try_failure)
  {
    assume a: "message update = Some m
          \<and> reply_text_result env (lg' @ [(Print (str ''IMAGE ERROR:'') e, True)]) IMAGE_FAILED = r"
    have h: "handle_image env update context lg
       = (raised r, lg' @ [(Print (str ''IMAGE ERROR:'') e, True), (ReplyText IMAGE_FAILED, r = None)])"
      using assms a by (auto simp: handle_image_def io_defs split: option.splits)
    show "snd (handle_image env update context lg)
            = lg' @ [(Print (str ''IMAGE ERROR:'') e, True), (ReplyText IMAGE_FAILED, r = None)]"
      unfolding h by simp
    show "delivered (snd (handle_image env update context lg))
            = delivered lg @ (if r = None then [IMAGE_FAILED] else [])"
      unfolding h using d
      by (cases r) (simp_all add: delivered_append delivered_Cons delivered_Nil)
    show "fst (handle_image env update context lg) = raised r"
      unfolding h by simp
  }
  {
    assume n: "message update = None"
    from assms(1) show e: "e = AttributeError" and l: "lg' = lg"
      unfolding handle_image_try_no_message [OF n] by simp_all
    show h: "handle_image env update context lg
            = (Inl AttributeError, lg @ [(Print (str ''IMAGE ERROR:'') AttributeError, True)])"
      using n by (simp add: handle_image_def handle_image_try_no_message io_try_def
          io_bind_def print_def io_call_def message_of_def io_lift_def)
    show "delivered (snd (handle_image env update context lg)) = delivered lg"
      unfolding h by (simp add: delivered_append delivered_Cons delivered_Nil)
  }
qed

text \<open>
  A photo message while the backend is down, and an edited photo caption.
\<close>

theorem handle_image_failure_reported_witness:
  "snd (handle_image backend_down_env photo_update (command_context []) [])
     = [(GetFile (str ''large''), True), (DownloadAsBytearray (str ''large''), True),
        (SendChatAction 7 (str ''typing''), True),
        (GenerateContent MODEL [Bytes [1, 2, 3] (str ''image/jpeg''), Text PROMPT, Text EXTRACT]
           CONFIG, False),
        (Print (str ''IMAGE ERROR:'') APIError, True),
        (ReplyText (str ''Image processing failed.''), True)]
   \<and> delivered (snd (handle_image backend_down_env photo_update (command_context []) []))
     = [str ''Image processing failed.'']
   \<and> fst (handle_image backend_down_env photo_update (command_context []) []) = Inr ()
   \<and> handle_image answering_env edited_update (command_context []) []
     = (Inl AttributeError, [(Print (str ''IMAGE ERROR:'') AttributeError, True)])"
proof -
  let ?lg = "[(GetFile (str ''large''), True), (DownloadAsBytearray (str ''large''), True),
        (SendChatAction 7 (str ''typing''), True),
        (GenerateContent MODEL [Bytes [1, 2, 3] (str ''image/jpeg''), Text PROMPT, Text EXTRACT]
           CONFIG, False)]"
  let ?m = "\<lparr>msg_text = None, msg_chat_type = PRIVATE,
             msg_photo = [str ''small'', str ''large'']\<rparr>"
  have 1: "handle_image_try backend_down_env photo_update (command_context []) []
      = (Inl APIError, ?lg)"
    by (simp add: handle_image_try_def solve_image_def to_jpeg_def io_defs env_defs)
  have 2: "is_Exception APIError" by simp
  have 3: "message photo_update = Some ?m
     \<and> reply_text_result backend_down_env (?lg @ [(Print (str ''IMAGE ERROR:'') APIError, True)])
      IMAGE_FAILED = None"
    by (simp add: env_defs)
  have 4: "handle_image_try answering_env edited_update (command_context []) []
      = (Inl AttributeError, [])"
    by (simp add: handle_image_try_def io_defs env_defs)
  have 5: "is_Exception AttributeError" by simp
  have 6: "message edited_update = None" by (simp add: edited_update_def)
  show ?thesis
    using handle_image_failure_reported [OF 1 2, of ?m None] 3
      handle_image_failure_reported [OF 4 5] 6
    by (simp add: delivered_def raised_def IMAGE_FAILED_def)
qed

end
